theory Spec2Isabelle
  imports Complex_Main
begin

chapter \<open>WATCHKEEPER Testing Edition: collection and analysis pipeline\<close>

text \<open>
  A shallow embedding of the collection-and-analysis pipeline
  (\<^verbatim>\<open>src/services/ai_processor.py\<close>, \<^verbatim>\<open>src/services/news_collector.py\<close>,
  \<^verbatim>\<open>src/services/threat_analyzer.py\<close>, \<^verbatim>\<open>src/collectors/base_collector.py\<close>).

  Conventions of the embedding.
  \<^item> A Python \<^verbatim>\<open>str\<close> that comes from outside (article text, source name, model
    response, page text) is a \<^typ>\<open>string\<close>; a \<^typ>\<open>char\<close> is one code point below 256,
    so the texts of the model range over the Latin-1 part of Unicode. On that range
    \<^verbatim>\<open>str.lower\<close>, \<^verbatim>\<open>str.split\<close>, \<^verbatim>\<open>str.strip\<close> and the regular expression class
    \<^verbatim>\<open>\s\<close> are modelled exactly.
  \<^item> A Python exception is a value \<open>Inl e\<close> of a sum type; a normal return is \<open>Inr v\<close>.
  \<^item> Python floats are exact rationals.
  \<^item> The network, the feed parser, the HTML parser, the inference service, the sentence
    tokenizer and the clock are parameters (\<open>world\<close>): the functions are stated for every
    behaviour of these collaborators.
\<close>

section \<open>Python strings\<close>

text \<open>\<^verbatim>\<open>str.isspace\<close> on one character: the white space of Unicode below code point 256.\<close>

definition isspace :: "char \<Rightarrow> bool" where
  "isspace c = (let n = (of_char c :: nat) in
     (9 \<le> n \<and> n \<le> 13) \<or> (28 \<le> n \<and> n \<le> 32) \<or> n = 133 \<or> n = 160)"

text \<open>\<^verbatim>\<open>str.lower\<close>: below code point 256 the upper-case letters are A-Z and
  U+00C0..U+00DE without the multiplication sign U+00D7; each is 32 below its lower-case
  letter.\<close>

definition lower_char :: "char \<Rightarrow> char" where
  "lower_char c = (let n = (of_char c :: nat) in
     if (65 \<le> n \<and> n \<le> 90) \<or> (192 \<le> n \<and> n \<le> 222 \<and> n \<noteq> 215)
     then char_of (n + 32) else c)"

definition lower :: "string \<Rightarrow> string" where
  "lower s = map lower_char s"

text \<open>\<^verbatim>\<open>s.startswith(p)\<close> and \<^verbatim>\<open>k in s\<close> (substring test).\<close>

fun startswith :: "'a list \<Rightarrow> 'a list \<Rightarrow> bool" where
  "startswith s [] = True"
| "startswith [] (p # ps) = False"
| "startswith (c # cs) (p # ps) = (c = p \<and> startswith cs ps)"

fun py_in :: "'a list \<Rightarrow> 'a list \<Rightarrow> bool" where
  "py_in k [] = (k = [])"
| "py_in k (c # cs) = (startswith (c # cs) k \<or> py_in k cs)"

text \<open>\<^verbatim>\<open>s.split()\<close>: the maximal runs of characters that are not white space. The first
  argument is the word being read.\<close>

fun split_from :: "string \<Rightarrow> string \<Rightarrow> string list" where
  "split_from w [] = (if w = [] then [] else [w])"
| "split_from w (c # cs) =
     (if isspace c then (if w = [] then split_from [] cs else w # split_from [] cs)
      else split_from (w @ [c]) cs)"

definition split :: "string \<Rightarrow> string list" where
  "split s = split_from [] s"

text \<open>\<^verbatim>\<open>s.strip()\<close> and \<^verbatim>\<open>s.rstrip()\<close>.\<close>

definition rstrip :: "string \<Rightarrow> string" where
  "rstrip s = rev (dropWhile isspace (rev s))"

definition strip :: "string \<Rightarrow> string" where
  "strip s = rstrip (dropWhile isspace s)"

text \<open>\<^verbatim>\<open>sep.join(xs)\<close>.\<close>

fun join :: "string \<Rightarrow> string list \<Rightarrow> string" where
  "join sep [] = []"
| "join sep [x] = x"
| "join sep (x # y # ys) = x @ sep @ join sep (y # ys)"

section \<open>Enumerations of \<^verbatim>\<open>src/models/threat.py\<close>\<close>

datatype ThreatCategory =
    POLITICAL_UNREST
  | TRANSPORT_DISRUPTION
  | WEATHER_EMERGENCY
  | SECURITY_INCIDENT
  | ECONOMIC_IMPACT
  | HEALTH_EMERGENCY

datatype ThreatStatus = ACTIVE | MONITORING | RESOLVED

fun category_value :: "ThreatCategory \<Rightarrow> string" where
  "category_value POLITICAL_UNREST = ''political_unrest''"
| "category_value TRANSPORT_DISRUPTION = ''transport_disruption''"
| "category_value WEATHER_EMERGENCY = ''weather_emergency''"
| "category_value SECURITY_INCIDENT = ''security_incident''"
| "category_value ECONOMIC_IMPACT = ''economic_impact''"
| "category_value HEALTH_EMERGENCY = ''health_emergency''"


text \<open>The members of \<^verbatim>\<open>ThreatCategory\<close> in the order of their declaration.\<close>

definition threat_categories :: "ThreatCategory list" where
  "threat_categories =
     [POLITICAL_UNREST, TRANSPORT_DISRUPTION, WEATHER_EMERGENCY,
      SECURITY_INCIDENT, ECONOMIC_IMPACT, HEALTH_EMERGENCY]"

section \<open>Fallback analysis: keyword scores, category and severity\<close>

datatype py_error = ValueError | TypeError | AttributeError | JSONDecodeError

text \<open>The dictionary \<^verbatim>\<open>keywords\<close> of \<^verbatim>\<open>_fallback_analysis\<close>, in insertion order.\<close>

definition keywords_dict :: "(ThreatCategory \<times> string list) list" where
  "keywords_dict =
   [(POLITICAL_UNREST,
       [''protest'', ''riot'', ''demonstration'', ''unrest'', ''coup'', ''revolution'',
        ''political crisis'', ''civil unrest'', ''uprising'']),
    (TRANSPORT_DISRUPTION,
       [''delay'', ''cancel'', ''strike'', ''airport'', ''railway'', ''road block'',
        ''traffic'', ''transport'', ''travel warning'', ''border closed'']),
    (WEATHER_EMERGENCY,
       [''storm'', ''flood'', ''hurricane'', ''tornado'', ''typhoon'', ''earthquake'',
        ''tsunami'', ''landslide'', ''wildfire'', ''extreme weather'']),
    (SECURITY_INCIDENT,
       [''attack'', ''terrorism'', ''shooting'', ''explosion'', ''bomb'', ''hostage'',
        ''kidnap'', ''threat'', ''security alert'', ''evacuation'']),
    (ECONOMIC_IMPACT,
       [''inflation'', ''recession'', ''currency'', ''economic crisis'', ''financial'',
        ''market crash'', ''bank'', ''shortage'', ''price increase'', ''devaluation'']),
    (HEALTH_EMERGENCY,
       [''outbreak'', ''epidemic'', ''pandemic'', ''virus'', ''disease'', ''infection'',
        ''quarantine'', ''health alert'', ''medical'', ''hospital''])]"

text \<open>\<^verbatim>\<open>score = sum(1 for keyword in category_keywords if keyword in text_lower)\<close>\<close>

definition keyword_score :: "string list \<Rightarrow> string \<Rightarrow> nat" where
  "keyword_score category_keywords text_lower =
     length (filter (\<lambda>keyword. py_in keyword text_lower) category_keywords)"

text \<open>The dictionary \<^verbatim>\<open>category_scores\<close>, keyed by \<^verbatim>\<open>category.value\<close>, in insertion
  order (the six values are distinct, so every iteration of the loop adds an entry).\<close>

definition category_scores :: "string \<Rightarrow> (string \<times> nat) list" where
  "category_scores text =
     (let text_lower = lower text
      in map (\<lambda>(category, category_keywords).
                (category_value category, keyword_score category_keywords text_lower))
             keywords_dict)"

text \<open>\<^verbatim>\<open>max(d, key=d.get)\<close>: Python's \<^verbatim>\<open>max\<close> walks the keys in iteration order and
  replaces its candidate only by a strictly larger one; on an empty dictionary it raises
  \<^verbatim>\<open>ValueError\<close>.\<close>

fun max_from :: "'a \<times> nat \<Rightarrow> ('a \<times> nat) list \<Rightarrow> 'a \<times> nat" where
  "max_from best [] = best"
| "max_from best (x # xs) = max_from (if snd best < snd x then x else best) xs"

fun py_max_key :: "('a \<times> nat) list \<Rightarrow> py_error + 'a" where
  "py_max_key [] = Inl ValueError"
| "py_max_key (x # xs) = Inr (fst (max_from x xs))"

definition primary_category :: "string \<Rightarrow> py_error + string" where
  "primary_category text = py_max_key (category_scores text)"

text \<open>\<^verbatim>\<open>int(x)\<close> on a float truncates towards zero.\<close>

definition py_int :: "rat \<Rightarrow> int" where
  "py_int x = (if 0 \<le> x then \<lfloor>x\<rfloor> else \<lceil>x\<rceil>)"

definition total_matches :: "string \<Rightarrow> nat" where
  "total_matches text = sum_list (map snd (category_scores text))"

definition text_length :: "string \<Rightarrow> nat" where
  "text_length text = length (split text)"

definition keyword_density :: "string \<Rightarrow> rat" where
  "keyword_density text = of_nat (total_matches text) / of_nat (max 1 (text_length text))"

definition fallback_severity :: "string \<Rightarrow> int" where
  "fallback_severity text = min 10 (max 1 (py_int (keyword_density text * 100)))"

text \<open>The formula of the specification, for comparison:
  \<open>clamp(1, 10, round(100 \<times> totalHits / wordCount))\<close>, with rounding to the nearest
  integer. (HOL's division by zero yields zero.)\<close>

definition spec_severity :: "string \<Rightarrow> int" where
  "spec_severity text =
     max 1 (min 10 (round (100 * of_nat (total_matches text) / of_nat (text_length text) :: rat)))"

text \<open>The keyword set of one category, its number of hits in a text (counted in the
  lowercased text, as \<^verbatim>\<open>_fallback_analysis\<close> does) and its position in the enumeration:
  the vocabulary in which the choice of the category is stated below.\<close>

definition category_keywords :: "ThreatCategory \<Rightarrow> string list" where
  "category_keywords c = (case map_of keywords_dict c of Some ks \<Rightarrow> ks | None \<Rightarrow> [])"

definition category_hits :: "ThreatCategory \<Rightarrow> string \<Rightarrow> nat" where
  "category_hits c text = keyword_score (category_keywords c) (lower text)"

fun category_index :: "ThreatCategory \<Rightarrow> nat" where
  "category_index POLITICAL_UNREST = 0"
| "category_index TRANSPORT_DISRUPTION = 1"
| "category_index WEATHER_EMERGENCY = 2"
| "category_index SECURITY_INCIDENT = 3"
| "category_index ECONOMIC_IMPACT = 4"
| "category_index HEALTH_EMERGENCY = 5"

section \<open>Status lifecycle (\<^verbatim>\<open>ThreatAnalyzer.update_threat_statuses\<close>)\<close>

text \<open>A \<^verbatim>\<open>datetime\<close> is a number of microseconds; \<^verbatim>\<open>timedelta(days=d)\<close> is \<open>d\<close> days
  in microseconds.\<close>

type_synonym datetime = int

definition timedelta_days :: "int \<Rightarrow> int" where
  "timedelta_days d = d * 86400000000"

text \<open>The columns of a row of table \<^verbatim>\<open>threats\<close> that the lifecycle reads or writes.\<close>

record threat_row =
  threat_id :: nat
  status :: ThreatStatus
  created_at :: datetime
  updated_at :: datetime

record status_update =
  updated_to_monitoring :: nat
  updated_to_resolved :: nat
  total_updated :: nat

text \<open>
  The function reads the clock twice (\<open>now1\<close>, \<open>now2\<close>) and runs two queries. Between them
  it assigns \<^verbatim>\<open>MONITORING\<close> to the rows of the first query, inside the session. Whether
  the second query sees these assignments depends on the session's \<^verbatim>\<open>autoflush\<close>
  setting; \<^verbatim>\<open>src/core/database.py\<close> creates sessions with \<^verbatim>\<open>autoflush=False\<close>, and the
  flag is a parameter here. Column \<^verbatim>\<open>updated_at\<close> has \<^verbatim>\<open>onupdate=datetime.utcnow\<close>: a
  row that is written gets the time of the write, taken here as \<open>now2\<close>.
\<close>

definition update_threat_statuses ::
  "bool \<Rightarrow> datetime \<Rightarrow> datetime \<Rightarrow> threat_row list \<Rightarrow> status_update \<times> threat_row list" where
  "update_threat_statuses autoflush now1 now2 db =
     (let cutoff_date = now1 - timedelta_days 7;
          is_old = (\<lambda>t. status t = ACTIVE \<and> created_at t < cutoff_date);
          old_threats = filter is_old db;
          session = map (\<lambda>t. if is_old t then t\<lparr>status := MONITORING, updated_at := now2\<rparr> else t) db;
          cutoff_date = now2 - timedelta_days 30;
          is_old_monitoring = (\<lambda>t. status t = MONITORING \<and> created_at t < cutoff_date);
          visible = (if autoflush then session else db);
          old_monitoring = filter is_old_monitoring visible;
          session = map (\<lambda>(seen, t). if is_old_monitoring seen
                                     then t\<lparr>status := RESOLVED, updated_at := now2\<rparr> else t)
                        (zip visible session);
          monitoring_count = length old_threats;
          resolved_count = length old_monitoring
      in (\<lparr>updated_to_monitoring = monitoring_count,
           updated_to_resolved = resolved_count,
           total_updated = monitoring_count + resolved_count\<rparr>, session))"


text \<open>Three rows for the example of the lifecycle: created 8, 31 and 3 days before time 1000.\<close>

definition example_rows :: "threat_row list" where
  "example_rows =
     [\<lparr>threat_id = 1, status = ACTIVE, created_at = 1000 - timedelta_days 8, updated_at = 0\<rparr>,
      \<lparr>threat_id = 2, status = MONITORING, created_at = 1000 - timedelta_days 31,
        updated_at = 1000 - timedelta_days 2\<rparr>,
      \<lparr>threat_id = 3, status = ACTIVE, created_at = 1000 - timedelta_days 3, updated_at = 0\<rparr>]"

section \<open>Collector (\<^verbatim>\<open>BaseCollector\<close>): fetching a page and extracting the article body\<close>

text \<open>What \<^verbatim>\<open>session.get\<close> does with a URL: it raises (connection error, timeout), or
  it answers with a status and a body.\<close>

datatype http_result = HttpRaises | HttpResponse nat string

text \<open>\<^verbatim>\<open>BaseCollector.fetch_url\<close>: the body of a response with status 200, otherwise
  \<^verbatim>\<open>None\<close>.\<close>

definition fetch_url :: "(string \<Rightarrow> http_result) \<Rightarrow> string \<Rightarrow> string option" where
  "fetch_url http_get url =
     (case http_get url of
        HttpRaises \<Rightarrow> None
      | HttpResponse status_code body \<Rightarrow> if status_code \<noteq> 200 then None else Some body)"

text \<open>
  The inner loop of \<^verbatim>\<open>extract_article_content\<close>:
  \<^verbatim>\<open>for element in elements: content += element.get_text(separator="\n", strip=True) + "\n\n"\<close>.
  An element is represented by the text that \<^verbatim>\<open>get_text\<close> returns for it.
\<close>

fun add_elements :: "string list \<Rightarrow> string \<Rightarrow> string" where
  "add_elements [] content = content"
| "add_elements (element # elements) content =
     add_elements elements (content @ element @ [CHR 0x0A, CHR 0x0A])"

text \<open>
  The outer loop over the selectors. \<open>soup_select selector\<close> stands for
  \<^verbatim>\<open>soup.select(selector)\<close> on the parsed page: the texts of the matched elements, or
  \<^verbatim>\<open>None\<close> when the HTML library raises (the \<^verbatim>\<open>except\<close> branch then returns \<^verbatim>\<open>None\<close>).
\<close>

fun select_all :: "(string \<Rightarrow> string list option) \<Rightarrow> string list \<Rightarrow> string \<Rightarrow> string option" where
  "select_all soup_select [] content = Some content"
| "select_all soup_select (selector # selectors) content =
     (case soup_select selector of
        None \<Rightarrow> None
      | Some elements \<Rightarrow> select_all soup_select selectors (add_elements elements content))"

definition extract_article_content ::
  "(string \<Rightarrow> http_result) \<Rightarrow> (string \<Rightarrow> string \<Rightarrow> string list option)
     \<Rightarrow> string \<Rightarrow> string list \<Rightarrow> string option" where
  "extract_article_content http_get soup url content_selectors =
     (case fetch_url http_get url of
        None \<Rightarrow> None
      | Some html \<Rightarrow>
          if html = [] then None
          else (case select_all (soup html) content_selectors [] of
                  None \<Rightarrow> None
                | Some content \<Rightarrow>
                    (let content = strip content
                     in if content = [] then None else Some content)))"

text \<open>The reading of the specification, for comparison: the rules are tried in order and
  the text of the first rule that extracts a non-empty text is returned.\<close>

fun spec_first_rule :: "(string \<Rightarrow> string list option) \<Rightarrow> string list \<Rightarrow> string option" where
  "spec_first_rule soup_select [] = None"
| "spec_first_rule soup_select (selector # selectors) =
     (case soup_select selector of
        None \<Rightarrow> spec_first_rule soup_select selectors
      | Some elements \<Rightarrow>
          (let content = strip (add_elements elements [])
           in if content = [] then spec_first_rule soup_select selectors else Some content))"

definition spec_fetch_body ::
  "(string \<Rightarrow> http_result) \<Rightarrow> (string \<Rightarrow> string \<Rightarrow> string list option)
     \<Rightarrow> string \<Rightarrow> string list \<Rightarrow> string option" where
  "spec_fetch_body http_get soup url content_rules =
     (case fetch_url http_get url of
        None \<Rightarrow> None
      | Some html \<Rightarrow> spec_first_rule (soup html) content_rules)"

text \<open>A page for the examples: selector \<open>.a\<close> matches one element with text \<open>A\<close>,
  selector \<open>.b\<close> one element with text \<open>B\<close>.\<close>

definition example_get :: "string \<Rightarrow> http_result" where
  "example_get url = HttpResponse 200 ''<html>''"

definition example_soup :: "string \<Rightarrow> string \<Rightarrow> string list option" where
  "example_soup html selector =
     (if selector = ''.a'' then Some [''A''] else if selector = ''.b'' then Some [''B''] else Some [])"


section \<open>Request throttling (\<^verbatim>\<open>AIProcessor._throttle_requests\<close>)\<close>

text \<open>
  The two fields of \<^verbatim>\<open>AIProcessor\<close> that the throttle reads and writes. Times are the values of
  \<^verbatim>\<open>time.time()\<close> in seconds, idealised as real numbers.
\<close>

record AIProcessor =
  processing_delay :: real
  last_request_time :: real

text \<open>
  \<^verbatim>\<open>_throttle_requests\<close> is a coroutine with one suspension point, \<^verbatim>\<open>await asyncio.sleep(delay)\<close>.
  The code before it and the code after it each run without interruption; other coroutines
  of the event loop run only while the call is suspended.

  \<open>throttle_begin\<close> is the part up to the suspension point: from the clock reading
  \<open>current_time\<close> it computes the delay to sleep, \<^verbatim>\<open>None\<close> when the call does not sleep.
  \<open>throttle_end\<close> is the last line, \<^verbatim>\<open>self.last_request_time = time.time()\<close>.
\<close>

definition throttle_begin :: "real \<Rightarrow> AIProcessor \<Rightarrow> real option" where
  "throttle_begin current_time self =
     (let time_since_last = current_time - last_request_time self
      in if time_since_last < processing_delay self
         then Some (processing_delay self - time_since_last)
         else None)"

definition throttle_end :: "real \<Rightarrow> AIProcessor \<Rightarrow> AIProcessor" where
  "throttle_end now self = self\<lparr>last_request_time := now\<rparr>"

text \<open>
  One whole call that no other call overlaps. \<open>current_time\<close> is the first clock reading and
  \<open>end_time\<close> the second one, at which the call returns and the request is dispatched.
  \<^verbatim>\<open>asyncio.sleep(delay)\<close> resumes no earlier than \<open>delay\<close> seconds after it was called and the
  clock does not run backwards; readings that contradict this give \<^verbatim>\<open>None\<close>.
\<close>

definition throttle_requests :: "real \<Rightarrow> real \<Rightarrow> AIProcessor \<Rightarrow> AIProcessor option" where
  "throttle_requests current_time end_time self =
     (case throttle_begin current_time self of
        Some delay \<Rightarrow>
          if end_time < current_time + delay then None else Some (throttle_end end_time self)
      | None \<Rightarrow>
          if end_time < current_time then None else Some (throttle_end end_time self))"

text \<open>
  Several callers on one event loop. A caller is either suspended in \<^verbatim>\<open>asyncio.sleep\<close>, due
  to resume at a given time, or has returned from the throttle at a given time. An event is
  one uninterrupted run of one caller: \<open>Call c t t'\<close> is caller \<open>c\<close> entering the throttle, with
  \<open>t\<close> the first clock reading and \<open>t'\<close> the second one (used when the call does not sleep);
  \<open>Resume c t\<close> is caller \<open>c\<close> waking from its sleep at time \<open>t\<close>.
\<close>

datatype call_state = Suspended real | Dispatched real

datatype event = Call nat real real | Resume nat real

record event_loop =
  processor :: AIProcessor
  clock :: real
  calls :: "(nat \<times> call_state) list"

fun step :: "event \<Rightarrow> event_loop \<Rightarrow> event_loop option" where
  "step (Call c t t') s =
     (if t < clock s \<or> t' < t \<or> map_of (calls s) c \<noteq> None then None
      else (case throttle_begin t (processor s) of
              Some delay \<Rightarrow>
                Some (s\<lparr>clock := t, calls := (c, Suspended (t + delay)) # calls s\<rparr>)
            | None \<Rightarrow>
                Some (s\<lparr>processor := throttle_end t' (processor s), clock := t',
                        calls := (c, Dispatched t') # calls s\<rparr>)))"
| "step (Resume c t) s =
     (case map_of (calls s) c of
        Some (Suspended due) \<Rightarrow>
          if t < clock s \<or> t < due then None
          else Some (s\<lparr>processor := throttle_end t (processor s), clock := t,
                       calls := (c, Dispatched t) # calls s\<rparr>)
      | _ \<Rightarrow> None)"

fun run :: "event list \<Rightarrow> event_loop \<Rightarrow> event_loop option" where
  "run [] s = Some s"
| "run (e # es) s = (case step e s of None \<Rightarrow> None | Some s' \<Rightarrow> run es s')"

text \<open>The time at which a caller was dispatched in the final state of a run.\<close>

definition dispatched_at :: "event_loop option \<Rightarrow> nat \<Rightarrow> real option" where
  "dispatched_at r c =
     (case r of
        None \<Rightarrow> None
      | Some s \<Rightarrow> (case map_of (calls s) c of Some (Dispatched t) \<Rightarrow> Some t | _ \<Rightarrow> None))"

text \<open>An engine whose last request was dispatched at time 100, with the configured delay of
  two seconds (\<^verbatim>\<open>PROCESSING_DELAY\<close>).\<close>

definition example_loop :: event_loop where
  "example_loop =
     \<lparr>processor = \<lparr>processing_delay = 2, last_request_time = 100\<rparr>, clock = 100, calls = []\<rparr>"


section \<open>JSON values and Python dictionaries\<close>

text \<open>
  The values that \<^verbatim>\<open>json.loads\<close> produces. A Python float is a rational number or one of the
  three special values that the \<^verbatim>\<open>json\<close> module accepts (\<^verbatim>\<open>Infinity\<close>, \<^verbatim>\<open>-Infinity\<close>, \<^verbatim>\<open>NaN\<close>).
  A \<^verbatim>\<open>dict\<close> is an association list with distinct keys in insertion order.
\<close>

datatype py_float = Finite rat | PosInf | NegInf | NaN

datatype json =
    JNull
  | JBool bool
  | JInt int
  | JFloat py_float
  | JString string
  | JArray "json list"
  | JObject "(string \<times> json) list"

type_synonym py_dict = "(string \<times> json) list"


fun dict_set :: "py_dict \<Rightarrow> string \<Rightarrow> json \<Rightarrow> py_dict" where
  "dict_set [] key v = [(key, v)]"
| "dict_set ((k, x) # d) key v = (if k = key then (k, v) # d else (k, x) # dict_set d key v)"



section \<open>Collection manager (\<^verbatim>\<open>TestingCollectionManager\<close>)\<close>

text \<open>The columns of \<^verbatim>\<open>Source\<close> that the manager reads, and a feed entry.\<close>

datatype source_kind = RssFeed | WebScrape | OtherKind

record source =
  source_id :: string
  source_name :: string
  source_url :: string
  source_type :: source_kind
  last_collected_at :: "datetime option"
  collection_frequency :: int


text \<open>
  The row that \<^verbatim>\<open>_process_article\<close> adds to the table of threats. The two dates of the row
  (\<^verbatim>\<open>published_at\<close>, \<^verbatim>\<open>processed_at\<close>) are left out.
\<close>

record threat =
  threat_title :: json
  threat_description :: json
  threat_content :: string
  threat_latitude :: json
  threat_longitude :: json
  threat_country :: json
  threat_city :: json
  threat_severity :: json
  threat_category :: ThreatCategory
  threat_status :: ThreatStatus
  threat_confidence_score :: json
  threat_missionary_relevance :: json
  threat_source_url :: string
  threat_source_name :: string

text \<open>The statistics that \<^verbatim>\<open>collect_from_source\<close> returns for one source.\<close>

record source_result =
  articles_collected :: nat
  articles_processed :: nat
  errors :: nat









text \<open>The report of \<^verbatim>\<open>run_collection\<close>: the dictionary with status \<^verbatim>\<open>already_running\<close>, with
  status \<^verbatim>\<open>completed\<close> and the totals, or with status \<^verbatim>\<open>error\<close>.\<close>

record totals =
  sources_processed :: nat
  total_articles_collected :: nat
  total_articles_processed :: nat
  total_errors :: nat
  source_results :: "source_result list"

datatype report = AlreadyRunning | Completed totals | Failed


text \<open>The manager: its flag \<^verbatim>\<open>running\<close>, its limit of articles per source, and the table of
  threats that its calls write to.\<close>

record manager =
  running :: bool
  max_articles_per_source :: nat
  db_threats :: "threat list"



















text \<open>
  Several calls of \<^verbatim>\<open>run_collection\<close> on one event loop. A call runs without interruption
  from one \<^verbatim>\<open>await\<close> to the next; it is suspended in \<^verbatim>\<open>await self.collect_from_source(source)\<close>
  or in \<^verbatim>\<open>await asyncio.sleep(2)\<close>, or it has returned. The frame of a suspended call holds
  its local variables: whether \<^verbatim>\<open>source_id\<close> was given, the readings of the clock, and
  \<^verbatim>\<open>results\<close>; the sources that the loop has not reached yet are kept beside it.
\<close>

record frame =
  frame_named :: bool
  frame_now :: "source \<Rightarrow> datetime"
  frame_results :: "source_result list"

datatype sweep =
    Collecting frame source "source list"
  | Sleeping frame "source list"
  | Returned report

text \<open>
  The event loop: the manager, the calls by caller, and two records kept for the
  statements below: \<open>collected c\<close> lists the sources for which caller \<open>c\<close> has invoked
  \<^verbatim>\<open>collect_from_source\<close>, \<open>plan c\<close> the sources of its query that are not rate limited.
\<close>

record manager_loop =
  mgr :: manager
  sweeps :: "nat \<Rightarrow> sweep option"
  collected :: "nat \<Rightarrow> string list"
  plan :: "nat \<Rightarrow> source list"









text \<open>The report of a caller and the sources it collected, after a run.\<close>

definition report_after :: "manager_loop option \<Rightarrow> nat \<Rightarrow> report option" where
  "report_after r c =
     (case r of
        None \<Rightarrow> None
      | Some s \<Rightarrow> (case sweeps s c of Some (Returned rep) \<Rightarrow> Some rep | _ \<Rightarrow> None))"

definition collected_after :: "manager_loop option \<Rightarrow> nat \<Rightarrow> string list option" where
  "collected_after r c = (case r of None \<Rightarrow> None | Some s \<Rightarrow> Some (collected s c))"





chapter \<open>Properties\<close>

section \<open>The category of the fallback analysis\<close>


lemma max_from_ge_best: "snd best \<le> snd (max_from best xs)"
proof (induction xs arbitrary: best)
  case Nil
  show ?case by simp
next
  case (Cons x xs)
  show ?case
  proof (cases "snd best < snd x")
    case True
    with Cons.IH [of x] show ?thesis by simp
  next
    case False
    with Cons.IH [of best] show ?thesis by simp
  qed
qed

lemma max_from_ge_all: "y \<in> set xs \<Longrightarrow> snd y \<le> snd (max_from best xs)"
proof (induction xs arbitrary: best)
  case Nil
  then show ?case by simp
next
  case (Cons x xs)
  show ?case
  proof (cases "y = x")
    case True
    have "snd x \<le> snd (if snd best < snd x then x else best)" by simp
    also have "\<dots> \<le> snd (max_from (if snd best < snd x then x else best) xs)"
      by (rule max_from_ge_best)
    finally show ?thesis using True by simp
  next
    case False
    with Cons.prems have "y \<in> set xs" by simp
    from Cons.IH [OF this] show ?thesis by simp
  qed
qed

text \<open>The result is the first entry of the list whose value is maximal.\<close>

lemma max_from_first:
  "\<exists>ys zs. best # xs = ys @ max_from best xs # zs
     \<and> (\<forall>y \<in> set ys. snd y < snd (max_from best xs))"
proof (induction xs arbitrary: best)
  case Nil
  have "[best] = [] @ best # [] \<and> (\<forall>y \<in> set []. snd y < snd best)" by simp
  then have "\<exists>ys zs. [best] = ys @ best # zs \<and> (\<forall>y \<in> set ys. snd y < snd best)"
    by (intro exI)
  then show ?case by simp
next
  case (Cons x xs)
  show ?case
  proof (cases "snd best < snd x")
    case True
    from Cons.IH [of x] obtain ys zs where d: "x # xs = ys @ max_from x xs # zs"
      and lt: "\<forall>y \<in> set ys. snd y < snd (max_from x xs)" by blast
    have "snd x \<le> snd (max_from x xs)" by (rule max_from_ge_best)
    with True have bl: "snd best < snd (max_from x xs)" by simp
    have "best # x # xs = (best # ys) @ max_from x xs # zs" using d by simp
    moreover have "\<forall>y \<in> set (best # ys). snd y < snd (max_from x xs)" using lt bl by simp
    ultimately have "best # x # xs = (best # ys) @ max_from x xs # zs
       \<and> (\<forall>y \<in> set (best # ys). snd y < snd (max_from x xs))" by (rule conjI)
    then have "\<exists>ys zs. best # x # xs = ys @ max_from x xs # zs
       \<and> (\<forall>y \<in> set ys. snd y < snd (max_from x xs))" by (intro exI)
    then show ?thesis using True by simp
  next
    case False
    from Cons.IH [of best] obtain ys zs where d: "best # xs = ys @ max_from best xs # zs"
      and lt: "\<forall>y \<in> set ys. snd y < snd (max_from best xs)" by blast
    show ?thesis
    proof (cases ys)
      case Nil
      from d Nil have "best # xs = max_from best xs # zs" by (simp only: append_Nil)
      then have r: "max_from best xs = best" by (metis list.inject)
      have "best # x # xs = [] @ best # (x # xs) \<and> (\<forall>y \<in> set []. snd y < snd best)" by simp
      then have "\<exists>ys zs. best # x # xs = ys @ best # zs \<and> (\<forall>y \<in> set ys. snd y < snd best)"
        by (intro exI)
      then show ?thesis using False r by simp
    next
      case (Cons b ys')
      from d Cons have "best # xs = b # (ys' @ max_from best xs # zs)" by (simp only: append_Cons)
      then have b: "b = best" and xs: "xs = ys' @ max_from best xs # zs"
        by (metis list.inject)+
      from lt Cons b have bl: "snd best < snd (max_from best xs)" by simp
      have "best # x # xs = (best # x # ys') @ max_from best xs # zs"
        using xs by (metis append_Cons)
      moreover have "\<forall>y \<in> set (best # x # ys'). snd y < snd (max_from best xs)"
        using lt Cons b bl False by auto
      ultimately have "best # x # xs = (best # x # ys') @ max_from best xs # zs
         \<and> (\<forall>y \<in> set (best # x # ys'). snd y < snd (max_from best xs))" by (rule conjI)
      then have "\<exists>ys zs. best # x # xs = ys @ max_from best xs # zs
         \<and> (\<forall>y \<in> set ys. snd y < snd (max_from best xs))" by (intro exI)
      then show ?thesis using False by simp
    qed
  qed
qed




lemma category_scores_eq:
  "category_scores text = map (\<lambda>c. (category_value c, category_hits c text)) threat_categories"
  by (simp add: category_scores_def keywords_dict_def threat_categories_def category_hits_def
      category_keywords_def Let_def)

lemma threat_categories_nth: "threat_categories ! category_index c = c"
  by (cases c) (simp_all add: threat_categories_def)

lemma category_index_less: "category_index c < 6"
  by (cases c) simp_all


lemma threat_categories_distinct: "distinct threat_categories"
  by (simp add: threat_categories_def)

lemma threat_categories_all: "c \<in> set threat_categories"
  by (cases c) (simp_all add: threat_categories_def)




lemma max_from_map_first:
  "\<exists>cs1 c cs2. c0 # cs = cs1 @ c # cs2 \<and> max_from (f c0) (map f cs) = f c
      \<and> (\<forall>c' \<in> set cs1. snd (f c') < snd (f c))"
proof (induction cs arbitrary: c0)
  case Nil
  have "[c0] = [] @ c0 # [] \<and> max_from (f c0) (map f []) = f c0
      \<and> (\<forall>c' \<in> set []. snd (f c') < snd (f c0))" by simp
  then show ?case by blast
next
  case (Cons a cs)
  show ?case
  proof (cases "snd (f c0) < snd (f a)")
    case True
    from Cons.IH [of a] obtain cs1 c cs2 where d: "a # cs = cs1 @ c # cs2"
      and m: "max_from (f a) (map f cs) = f c"
      and lt: "\<forall>c' \<in> set cs1. snd (f c') < snd (f c)" by blast
    have "snd (f a) \<le> snd (max_from (f a) (map f cs))" by (rule max_from_ge_best)
    with True m have bl: "snd (f c0) < snd (f c)" by simp
    have e1: "c0 # a # cs = (c0 # cs1) @ c # cs2" using d by simp
    have e2: "max_from (f c0) (map f (a # cs)) = f c" using True m by simp
    have e3: "\<forall>c' \<in> set (c0 # cs1). snd (f c') < snd (f c)" using lt bl by simp
    from e1 e2 e3 show ?thesis by blast
  next
    case False
    from Cons.IH [of c0] obtain cs1 c cs2 where d: "c0 # cs = cs1 @ c # cs2"
      and m: "max_from (f c0) (map f cs) = f c"
      and lt: "\<forall>c' \<in> set cs1. snd (f c') < snd (f c)" by blast
    have e2: "max_from (f c0) (map f (a # cs)) = f c" using False m by simp
    show ?thesis
    proof (cases cs1)
      case Nil
      with d have cc: "c = c0" by simp
      have e1: "c0 # a # cs = [] @ c # (a # cs)" using cc by simp
      have e3: "\<forall>c' \<in> set []. snd (f c') < snd (f c)" by simp
      from e1 e2 e3 show ?thesis by blast
    next
      case (Cons b cs1')
      with d have b: "b = c0" and cs: "cs = cs1' @ c # cs2" by simp_all
      from lt Cons b have bl: "snd (f c0) < snd (f c)" by simp
      have e1: "c0 # a # cs = (c0 # a # cs1') @ c # cs2" by (subst cs) simp
      have e3: "\<forall>c' \<in> set (c0 # a # cs1'). snd (f c') < snd (f c)"
        using lt Cons bl False by auto
      from e1 e2 e3 show ?thesis by blast
    qed
  qed
qed



text \<open>
  Claim C7. For every text the category chosen by the fallback analysis is the category
  whose keyword set has the most hits in the lowercased text; among categories with the
  same number of hits, the one declared first in \<^verbatim>\<open>ThreatCategory\<close> is chosen.
\<close>

theorem fallback_category_most_hits_first_declared:
  "\<exists>c. primary_category text = Inr (category_value c)
     \<and> (\<forall>c'. category_hits c' text \<le> category_hits c text)
     \<and> (\<forall>c'. category_index c' < category_index c \<longrightarrow> category_hits c' text < category_hits c text)"
proof -
  define f where "f = (\<lambda>c. (category_value c, category_hits c text))"
  define cs where "cs = [TRANSPORT_DISRUPTION, WEATHER_EMERGENCY,
      SECURITY_INCIDENT, ECONOMIC_IMPACT, HEALTH_EMERGENCY]"
  have tc: "threat_categories = POLITICAL_UNREST # cs"
    by (simp add: threat_categories_def cs_def)
  have scores: "category_scores text = f POLITICAL_UNREST # map f cs"
    unfolding category_scores_eq tc f_def by simp
  from max_from_map_first [of POLITICAL_UNREST cs f] obtain cs1 c cs2
    where d: "POLITICAL_UNREST # cs = cs1 @ c # cs2"
      and m: "max_from (f POLITICAL_UNREST) (map f cs) = f c"
      and lt: "\<forall>c' \<in> set cs1. snd (f c') < snd (f c)" by blast
  have cats: "threat_categories = cs1 @ c # cs2" using tc d by simp
  have pc: "primary_category text = Inr (category_value c)"
    unfolding primary_category_def scores by (simp add: m) (simp add: f_def)
  have all: "\<forall>c'. category_hits c' text \<le> category_hits c text"
  proof
    fix c'
    have "c' \<in> set (POLITICAL_UNREST # cs)" using threat_categories_all [of c'] tc by simp
    then have "c' = POLITICAL_UNREST \<or> f c' \<in> set (map f cs)" by auto
    then have "snd (f c') \<le> snd (max_from (f POLITICAL_UNREST) (map f cs))"
      using max_from_ge_all [of "f c'" "map f cs" "f POLITICAL_UNREST"]
        max_from_ge_best [of "f POLITICAL_UNREST" "map f cs"] by blast
    then show "category_hits c' text \<le> category_hits c text" by (simp add: m) (simp add: f_def)
  qed
  have idx: "category_index c = length cs1"
  proof -
    have a: "threat_categories ! length cs1 = c" by (subst cats) simp
    have b: "threat_categories ! category_index c = c" by (rule threat_categories_nth)
    have l1: "length cs1 < length threat_categories" by (subst cats) simp
    have l2: "category_index c < length threat_categories"
      using category_index_less [of c] by (simp add: threat_categories_def)
    from nth_eq_iff_index_eq [OF threat_categories_distinct l2 l1] a b show ?thesis by simp
  qed
  have before: "\<forall>c'. category_index c' < category_index c \<longrightarrow> category_hits c' text < category_hits c text"
  proof (intro allI impI)
    fix c'
    assume "category_index c' < category_index c"
    then have ji: "category_index c' < length cs1" using idx by simp
    have "threat_categories ! category_index c' = cs1 ! category_index c'"
      by (subst cats) (simp add: nth_append ji)
    then have "c' = cs1 ! category_index c'" using threat_categories_nth [of c'] by simp
    then have "c' \<in> set cs1" using ji nth_mem by metis
    with lt have "snd (f c') < snd (f c)" by blast
    then show "category_hits c' text < category_hits c text" by (simp add: f_def)
  qed
  from pc all before show ?thesis by blast
qed




theorem fallback_category_witness:
  "primary_category ''Storm'' = Inr (category_value WEATHER_EMERGENCY)
   \<and> category_index POLITICAL_UNREST < category_index WEATHER_EMERGENCY
   \<and> category_hits POLITICAL_UNREST ''Storm'' < category_hits WEATHER_EMERGENCY ''Storm''"
proof -
  have a: "primary_category ''Storm'' = Inr ''weather_emergency''" by code_simp
  from fallback_category_most_hits_first_declared [of "''Storm''"] obtain c
    where c: "primary_category ''Storm'' = Inr (category_value c)"
      and lt: "\<forall>c'. category_index c' < category_index c
                 \<longrightarrow> category_hits c' ''Storm'' < category_hits c ''Storm''" by blast
  from a c have "category_value c = ''weather_emergency''" by simp
  then have w: "c = WEATHER_EMERGENCY" by (cases c) simp_all
  have i: "category_index POLITICAL_UNREST < category_index WEATHER_EMERGENCY" by simp
  from lt w i have "category_hits POLITICAL_UNREST ''Storm'' < category_hits WEATHER_EMERGENCY ''Storm''"
    by blast
  with c w i show ?thesis by simp
qed



section \<open>The severity of the fallback analysis\<close>


lemma py_int_nonneg: "0 \<le> x \<Longrightarrow> py_int x = \<lfloor>x\<rfloor>"
  by (simp add: py_int_def)

lemma density_floor:
  "\<lfloor>(of_nat a / of_nat b :: rat) * 100\<rfloor> = (100 * int a) div int b"
proof -
  have "(of_nat a / of_nat b :: rat) * 100 = of_int (100 * int a) / of_int (int b)" by simp
  then show ?thesis by (simp only: floor_divide_of_int_eq)
qed

lemma total_matches_sum:
  "total_matches text = sum_list (map (\<lambda>c. category_hits c text) threat_categories)"
  by (simp add: total_matches_def category_scores_eq o_def)

lemma fallback_severity_eq:
  "fallback_severity text =
     max 1 (min 10 ((100 * int (total_matches text)) div int (max 1 (text_length text))))"
proof -
  have nn: "0 \<le> keyword_density text * 100" by (simp add: keyword_density_def)
  have "py_int (keyword_density text * 100) = \<lfloor>keyword_density text * 100\<rfloor>"
    using nn by (rule py_int_nonneg)
  also have "\<dots> = (100 * int (total_matches text)) div int (max 1 (text_length text))"
    unfolding keyword_density_def by (rule density_floor)
  finally show ?thesis by (simp add: fallback_severity_def)
qed

text \<open>
  Claim C8, as amended. For every text the severity of the fallback analysis is
  \<open>clamp(1, 10, floor(100 \<times> totalHits / max(1, wordCount)))\<close>: the quotient is truncated,
  not rounded, and a text without words counts as one word. \<open>totalHits\<close> is the sum of
  the keyword hits of the six categories, \<open>wordCount\<close> the number of words separated by
  white space.
\<close>

theorem fallback_severity_truncates:
  "fallback_severity text =
     max 1 (min 10 ((100 * int (total_matches text)) div int (max 1 (text_length text))))
   \<and> total_matches text = sum_list (map (\<lambda>c. category_hits c text) threat_categories)
   \<and> text_length text = length (split text)"
  using fallback_severity_eq [of "text"] total_matches_sum [of "text"]
  by (simp add: text_length_def)

lemma ex_scores: "total_matches ''bomb a a a a a a a a a a a a'' = 1"
  by code_simp

lemma ex_words: "text_length ''bomb a a a a a a a a a a a a'' = 13"
  by code_simp

lemma round_100_13: "round (100 / 13 :: rat) = 8"
proof -
  have "(100 / 13 :: rat) + 1 / 2 = 213 / 26" by simp
  moreover have "\<lfloor>213 / 26 :: rat\<rfloor> = 8"
  proof -
    have "\<lfloor>of_int 213 / of_int 26 :: rat\<rfloor> = 213 div 26" by (rule floor_divide_of_int_eq)
    then show ?thesis by simp
  qed
  ultimately show ?thesis by (simp only: round_def)
qed

text \<open>
  Claim C8 as stated (rounding) fails: one keyword in thirteen words has density
  \<open>100/13 = 7.69\<close>, which the code truncates to 7 and the stated formula rounds to 8.
\<close>

theorem fallback_severity_round_counterexample:
  "fallback_severity ''bomb a a a a a a a a a a a a'' = 7
   \<and> spec_severity ''bomb a a a a a a a a a a a a'' = 8"
proof -
  have a: "fallback_severity ''bomb a a a a a a a a a a a a'' = 7"
    by (simp add: fallback_severity_eq ex_scores ex_words)
  have b: "spec_severity ''bomb a a a a a a a a a a a a'' = 8"
    by (simp add: spec_severity_def ex_scores ex_words round_100_13)
  from a b show ?thesis by simp
qed



section \<open>The status lifecycle\<close>


lemma update_length: "length (snd (update_threat_statuses af now1 now2 db)) = length db"
  by (simp add: update_threat_statuses_def Let_def)

lemma update_nth:
  assumes "i < length db"
  shows "snd (update_threat_statuses af now1 now2 db) ! i =
    (let t = db ! i;
         old = (status t = ACTIVE \<and> created_at t < now1 - timedelta_days 7);
         t1 = (if old then t\<lparr>status := MONITORING, updated_at := now2\<rparr> else t);
         seen = (if af then t1 else t)
     in if status seen = MONITORING \<and> created_at seen < now2 - timedelta_days 30
        then t1\<lparr>status := RESOLVED, updated_at := now2\<rparr> else t1)"
  using assms by (auto simp add: update_threat_statuses_def Let_def)


lemma update_status:
  assumes "i < length db"
  shows "status (snd (update_threat_statuses af now1 now2 db) ! i) =
           (if status (db ! i) = ACTIVE \<and> created_at (db ! i) < now1 - timedelta_days 7
            then (if af \<and> created_at (db ! i) < now2 - timedelta_days 30
                  then RESOLVED else MONITORING)
            else if status (db ! i) = MONITORING \<and> created_at (db ! i) < now2 - timedelta_days 30
            then RESOLVED
            else status (db ! i))"
  unfolding update_nth [OF assms] Let_def by simp

lemma update_created_at:
  assumes "i < length db"
  shows "created_at (snd (update_threat_statuses af now1 now2 db) ! i) = created_at (db ! i)"
  unfolding update_nth [OF assms] Let_def by simp

lemma update_unchanged:
  assumes "i < length db"
    and "status (snd (update_threat_statuses af now1 now2 db) ! i) = status (db ! i)"
  shows "snd (update_threat_statuses af now1 now2 db) ! i = db ! i"
proof -
  have s: "status (db ! i) =
           (if status (db ! i) = ACTIVE \<and> created_at (db ! i) < now1 - timedelta_days 7
            then (if af \<and> created_at (db ! i) < now2 - timedelta_days 30
                  then RESOLVED else MONITORING)
            else if status (db ! i) = MONITORING \<and> created_at (db ! i) < now2 - timedelta_days 30
            then RESOLVED
            else status (db ! i))"
    using assms(2) update_status [OF assms(1), of af now1 now2] by simp
  then have a: "\<not> (status (db ! i) = ACTIVE \<and> created_at (db ! i) < now1 - timedelta_days 7)"
    by (auto split: if_splits)
  with s have b: "\<not> (status (db ! i) = MONITORING \<and> created_at (db ! i) < now2 - timedelta_days 30)"
    by (auto split: if_splits)
  from a b show ?thesis
    unfolding update_nth [OF assms(1)] Let_def by auto
qed

lemma update_instances:
  assumes "i < length db" and "t0 \<le> now1" and "now1 \<le> now2" and "now2 < t0 + timedelta_days 1"
  shows "(status (db ! i) = ACTIVE \<and> created_at (db ! i) = t0 - timedelta_days 8
            \<longrightarrow> status (snd (update_threat_statuses af now1 now2 db) ! i) = MONITORING)"
    and "(status (db ! i) = MONITORING \<and> created_at (db ! i) = t0 - timedelta_days 31
            \<longrightarrow> status (snd (update_threat_statuses af now1 now2 db) ! i) = RESOLVED)"
    and "(status (db ! i) = ACTIVE \<and> created_at (db ! i) = t0 - timedelta_days 3
            \<longrightarrow> snd (update_threat_statuses af now1 now2 db) ! i = db ! i)"
proof -
  show "(status (db ! i) = ACTIVE \<and> created_at (db ! i) = t0 - timedelta_days 8
            \<longrightarrow> status (snd (update_threat_statuses af now1 now2 db) ! i) = MONITORING)"
    using assms(2-4) unfolding update_status [OF assms(1)] by (simp add: timedelta_days_def)
  show "(status (db ! i) = MONITORING \<and> created_at (db ! i) = t0 - timedelta_days 31
            \<longrightarrow> status (snd (update_threat_statuses af now1 now2 db) ! i) = RESOLVED)"
    using assms(2-4) unfolding update_status [OF assms(1)] by (simp add: timedelta_days_def)
  have "status (db ! i) = ACTIVE \<and> created_at (db ! i) = t0 - timedelta_days 3
      \<longrightarrow> status (snd (update_threat_statuses af now1 now2 db) ! i) = status (db ! i)"
    using assms(2-4) unfolding update_status [OF assms(1)] by (simp add: timedelta_days_def)
  then show "(status (db ! i) = ACTIVE \<and> created_at (db ! i) = t0 - timedelta_days 3
            \<longrightarrow> snd (update_threat_statuses af now1 now2 db) ! i = db ! i)"
    using update_unchanged [OF assms(1)] by blast
qed

text \<open>
  Claim C9. One call of \<^verbatim>\<open>update_threat_statuses\<close> reads the clock twice, at \<open>now1\<close> and at
  \<open>now2\<close>. For every row of the table:
  \<^item> the new status is determined by the old status and by \<^verbatim>\<open>created_at\<close> alone: an ACTIVE row
    with \<^verbatim>\<open>created_at\<close> more than 7 days before \<open>now1\<close> becomes MONITORING, a MONITORING row
    with \<^verbatim>\<open>created_at\<close> more than 30 days before \<open>now2\<close> becomes RESOLVED, every other row keeps
    its status (with \<^verbatim>\<open>autoflush\<close> an ACTIVE row older than 30 days passes through MONITORING
    to RESOLVED in the same call); \<^verbatim>\<open>updated_at\<close> is not read;
  \<^item> \<^verbatim>\<open>created_at\<close> is never changed, and a row whose status is kept is not changed at all;
  \<^item> hence, with ages stated at a time \<open>t0\<close> before the call and the call reading the clock
    less than a day after \<open>t0\<close>: a row created 8 days ago with status ACTIVE has status
    MONITORING, a row created 31 days ago with status MONITORING has status RESOLVED, and a
    row created 3 days ago with status ACTIVE is unchanged.
\<close>

theorem update_threat_statuses_by_age:
  assumes "i < length db"
  shows "status (snd (update_threat_statuses af now1 now2 db) ! i) =
           (if status (db ! i) = ACTIVE \<and> created_at (db ! i) < now1 - timedelta_days 7
            then (if af \<and> created_at (db ! i) < now2 - timedelta_days 30
                  then RESOLVED else MONITORING)
            else if status (db ! i) = MONITORING \<and> created_at (db ! i) < now2 - timedelta_days 30
            then RESOLVED
            else status (db ! i))
       \<and> created_at (snd (update_threat_statuses af now1 now2 db) ! i) = created_at (db ! i)
       \<and> (status (snd (update_threat_statuses af now1 now2 db) ! i) = status (db ! i)
            \<longrightarrow> snd (update_threat_statuses af now1 now2 db) ! i = db ! i)
       \<and> (t0 \<le> now1 \<and> now1 \<le> now2 \<and> now2 < t0 + timedelta_days 1
            \<longrightarrow> (status (db ! i) = ACTIVE \<and> created_at (db ! i) = t0 - timedelta_days 8
                    \<longrightarrow> status (snd (update_threat_statuses af now1 now2 db) ! i) = MONITORING)
                \<and> (status (db ! i) = MONITORING \<and> created_at (db ! i) = t0 - timedelta_days 31
                    \<longrightarrow> status (snd (update_threat_statuses af now1 now2 db) ! i) = RESOLVED)
                \<and> (status (db ! i) = ACTIVE \<and> created_at (db ! i) = t0 - timedelta_days 3
                    \<longrightarrow> snd (update_threat_statuses af now1 now2 db) ! i = db ! i))"
proof -
  note s = update_status [OF assms, of af now1 now2]
  note c = update_created_at [OF assms, of af now1 now2]
  have u: "status (snd (update_threat_statuses af now1 now2 db) ! i) = status (db ! i)
            \<longrightarrow> snd (update_threat_statuses af now1 now2 db) ! i = db ! i"
    using update_unchanged [OF assms] by blast
  have inst: "t0 \<le> now1 \<and> now1 \<le> now2 \<and> now2 < t0 + timedelta_days 1
            \<longrightarrow> (status (db ! i) = ACTIVE \<and> created_at (db ! i) = t0 - timedelta_days 8
                    \<longrightarrow> status (snd (update_threat_statuses af now1 now2 db) ! i) = MONITORING)
                \<and> (status (db ! i) = MONITORING \<and> created_at (db ! i) = t0 - timedelta_days 31
                    \<longrightarrow> status (snd (update_threat_statuses af now1 now2 db) ! i) = RESOLVED)
                \<and> (status (db ! i) = ACTIVE \<and> created_at (db ! i) = t0 - timedelta_days 3
                    \<longrightarrow> snd (update_threat_statuses af now1 now2 db) ! i = db ! i)"
    using update_instances [OF assms, of t0 now1 now2 af] by blast
  show ?thesis by (intro conjI) (rule s, rule c, rule u, rule inst)
qed

theorem update_threat_statuses_by_age_witness:
  "(2 :: nat) < length example_rows
   \<and> (1000 :: int) \<le> 1003 \<and> (1003 :: int) \<le> 1005 \<and> 1005 < 1000 + timedelta_days 1
   \<and> status (example_rows ! 0) = ACTIVE
   \<and> created_at (example_rows ! 0) = 1000 - timedelta_days 8
   \<and> status (example_rows ! 1) = MONITORING
   \<and> created_at (example_rows ! 1) = 1000 - timedelta_days 31
   \<and> status (example_rows ! 2) = ACTIVE
   \<and> created_at (example_rows ! 2) = 1000 - timedelta_days 3
   \<and> status (snd (update_threat_statuses False 1003 1005 example_rows) ! 0) = MONITORING
   \<and> status (snd (update_threat_statuses False 1003 1005 example_rows) ! 1) = RESOLVED
   \<and> snd (update_threat_statuses False 1003 1005 example_rows) ! 2 = example_rows ! 2"
proof -
  have h: "(1000 :: int) \<le> 1003 \<and> (1003 :: int) \<le> 1005 \<and> 1005 < 1000 + timedelta_days 1"
    by (simp add: timedelta_days_def)
  have l: "length example_rows = 3" by (simp add: example_rows_def)
  have l0: "0 < length example_rows" and l1: "1 < length example_rows"
    and l2: "2 < length example_rows" by (simp_all add: l)
  have r0: "status (example_rows ! 0) = ACTIVE \<and> created_at (example_rows ! 0) = 1000 - timedelta_days 8"
    by (simp add: example_rows_def)
  have r1: "status (example_rows ! 1) = MONITORING \<and> created_at (example_rows ! 1) = 1000 - timedelta_days 31"
    by (simp add: example_rows_def)
  have r2: "status (example_rows ! 2) = ACTIVE \<and> created_at (example_rows ! 2) = 1000 - timedelta_days 3"
    by (simp add: example_rows_def)
  note t0 = update_threat_statuses_by_age [of 0 example_rows False 1003 1005 1000, OF l0,
      THEN conjunct2, THEN conjunct2, THEN conjunct2, THEN mp, OF h]
  note t1 = update_threat_statuses_by_age [of 1 example_rows False 1003 1005 1000, OF l1,
      THEN conjunct2, THEN conjunct2, THEN conjunct2, THEN mp, OF h]
  note t2 = update_threat_statuses_by_age [of 2 example_rows False 1003 1005 1000, OF l2,
      THEN conjunct2, THEN conjunct2, THEN conjunct2, THEN mp, OF h]
  have s0: "status (snd (update_threat_statuses False 1003 1005 example_rows) ! 0) = MONITORING"
    by (rule t0 [THEN conjunct1, THEN mp, OF r0])
  have s1: "status (snd (update_threat_statuses False 1003 1005 example_rows) ! 1) = RESOLVED"
    by (rule t1 [THEN conjunct2, THEN conjunct1, THEN mp, OF r1])
  have s2: "snd (update_threat_statuses False 1003 1005 example_rows) ! 2 = example_rows ! 2"
    by (rule t2 [THEN conjunct2, THEN conjunct2, THEN mp, OF r2])
  show ?thesis
    by (intro conjI) (rule l2, simp, simp, rule h [THEN conjunct2, THEN conjunct2],
        rule r0 [THEN conjunct1], rule r0 [THEN conjunct2], rule r1 [THEN conjunct1],
        rule r1 [THEN conjunct2], rule r2 [THEN conjunct1], rule r2 [THEN conjunct2],
        rule s0, rule s1, rule s2)
qed

section \<open>Extraction of the article body\<close>

lemma add_elements_concat:
  "add_elements elements content = content @ concat (map (\<lambda>e. e @ [CHR 0x0A, CHR 0x0A]) elements)"
  by (induction elements arbitrary: content) simp_all

lemma select_all_concat:
  "\<forall>s \<in> set selectors. soup_select s = Some (elements_of s) \<Longrightarrow>
   select_all soup_select selectors content =
     Some (content @ concat (map (\<lambda>s. concat (map (\<lambda>e. e @ [CHR 0x0A, CHR 0x0A]) (elements_of s)))
                                selectors))"
  by (induction selectors arbitrary: content) (simp_all add: add_elements_concat)

lemma select_all_raises:
  "s \<in> set selectors \<Longrightarrow> soup_select s = None \<Longrightarrow> select_all soup_select selectors content = None"
  by (induction selectors arbitrary: content) (auto split: option.splits)

text \<open>
  Claim C6, as amended. \<^verbatim>\<open>extract_article_content\<close> applies every selector, in order,
  and returns the texts of all matched elements of all selectors, each followed by an
  empty line, concatenated and stripped; it returns \<^verbatim>\<open>None\<close> when that text is empty, when
  the fetch fails (exception, status other than 200, empty body) or when the HTML library
  raises.
\<close>

theorem extract_article_content_all_rules:
  "(fetch_url http_get url = None \<or> fetch_url http_get url = Some []
      \<longrightarrow> extract_article_content http_get soup url selectors = None)
   \<and> (fetch_url http_get url = Some html \<and> html \<noteq> []
        \<and> (\<forall>s \<in> set selectors. soup html s = Some (elements_of s))
      \<longrightarrow> extract_article_content http_get soup url selectors =
            (let content = strip (concat (map (\<lambda>s. concat (map (\<lambda>e. e @ [CHR 0x0A, CHR 0x0A])
                                                              (elements_of s))) selectors))
             in if content = [] then None else Some content))
   \<and> (fetch_url http_get url = Some html \<and> (\<exists>s \<in> set selectors. soup html s = None)
      \<longrightarrow> extract_article_content http_get soup url selectors = None)"
proof (intro conjI impI)
  assume "fetch_url http_get url = None \<or> fetch_url http_get url = Some []"
  then show "extract_article_content http_get soup url selectors = None"
    by (auto simp add: extract_article_content_def)
next
  assume a: "fetch_url http_get url = Some html \<and> html \<noteq> []
        \<and> (\<forall>s \<in> set selectors. soup html s = Some (elements_of s))"
  then have "select_all (soup html) selectors [] =
     Some ([] @ concat (map (\<lambda>s. concat (map (\<lambda>e. e @ [CHR 0x0A, CHR 0x0A]) (elements_of s)))
                                selectors))"
    by (intro select_all_concat) simp
  with a show "extract_article_content http_get soup url selectors =
            (let content = strip (concat (map (\<lambda>s. concat (map (\<lambda>e. e @ [CHR 0x0A, CHR 0x0A])
                                                              (elements_of s))) selectors))
             in if content = [] then None else Some content)"
    by (simp add: extract_article_content_def)
next
  assume a: "fetch_url http_get url = Some html \<and> (\<exists>s \<in> set selectors. soup html s = None)"
  then obtain s where "s \<in> set selectors" "soup html s = None" by blast
  then have "select_all (soup html) selectors [] = None" by (rule select_all_raises)
  with a show "extract_article_content http_get soup url selectors = None"
    by (simp add: extract_article_content_def)
qed

lemma example_fetch: "fetch_url example_get ''u'' = Some ''<html>''"
  by (simp add: fetch_url_def example_get_def)

lemma strip_AB: "strip (''A'' @ [CHR 0x0A, CHR 0x0A] @ ''B'' @ [CHR 0x0A, CHR 0x0A])
    = ''A'' @ [CHR 0x0A, CHR 0x0A] @ ''B''"
  by (simp add: strip_def rstrip_def isspace_def)

lemma strip_A: "strip (''A'' @ [CHR 0x0A, CHR 0x0A]) = ''A''"
  by (simp add: strip_def rstrip_def isspace_def)

theorem extract_article_content_all_rules_witness:
  "fetch_url example_get ''u'' = Some ''<html>'' \<and> ''<html>'' \<noteq> []
   \<and> example_soup ''<html>'' ''.a'' = Some [''A'']
   \<and> example_soup ''<html>'' ''.b'' = Some [''B'']
   \<and> extract_article_content example_get example_soup ''u'' [''.a'', ''.b'']
       = Some (''A'' @ [CHR 0x0A, CHR 0x0A] @ ''B'')"
proof -
  have h: "\<forall>s \<in> set [''.a'', ''.b'']. example_soup ''<html>'' s
          = Some ((\<lambda>s. if s = ''.a'' then [''A''] else [''B'']) s)"
    by (simp add: example_soup_def)
  from extract_article_content_all_rules
    [of example_get "''u''" example_soup "[''.a'', ''.b'']" "''<html>''"
        "\<lambda>s. if s = ''.a'' then [''A''] else [''B'']"]
    example_fetch h
  have "extract_article_content example_get example_soup ''u'' [''.a'', ''.b'']
       = Some (''A'' @ [CHR 0x0A, CHR 0x0A] @ ''B'')"
    using strip_AB by (simp add: Let_def)
  with example_fetch h show ?thesis by simp
qed

text \<open>
  Claim C6 as stated fails: with two rules that both extract text, the code returns the
  text of both, the stated behaviour is the text of the first.
\<close>

theorem extract_article_content_first_rule_counterexample:
  "extract_article_content example_get example_soup ''u'' [''.a'', ''.b'']
       = Some (''A'' @ [CHR 0x0A, CHR 0x0A] @ ''B'')
   \<and> spec_fetch_body example_get example_soup ''u'' [''.a'', ''.b''] = Some ''A''"
proof -
  have a: "extract_article_content example_get example_soup ''u'' [''.a'', ''.b'']
       = Some (''A'' @ [CHR 0x0A, CHR 0x0A] @ ''B'')"
    using strip_AB by (simp add: extract_article_content_def example_fetch example_soup_def)
  have b: "spec_fetch_body example_get example_soup ''u'' [''.a'', ''.b''] = Some ''A''"
    using strip_A by (simp add: spec_fetch_body_def example_fetch example_soup_def)
  from a b show ?thesis by simp
qed

section \<open>Throttle spacing\<close>

lemma throttle_requests_Some:
  "throttle_requests t d p = Some p' \<Longrightarrow>
     p' = p\<lparr>last_request_time := d\<rparr> \<and> t \<le> d \<and> last_request_time p + processing_delay p \<le> d"
  by (auto simp add: throttle_requests_def throttle_begin_def throttle_end_def Let_def
           split: option.splits if_splits)

lemma throttle_requests_returns:
  "t \<le> d \<Longrightarrow> last_request_time p + processing_delay p \<le> d \<Longrightarrow>
     throttle_requests t d p = Some (p\<lparr>last_request_time := d\<rparr>)"
  by (auto simp add: throttle_requests_def throttle_begin_def throttle_end_def Let_def
           split: option.splits if_splits)

text \<open>In the event loop, a call that no other call overlaps is \<open>throttle_requests\<close>.\<close>

lemma step_call_is_throttle_requests:
  "throttle_begin t (processor s) = None \<Longrightarrow> step (Call c t d) s = Some s' \<Longrightarrow>
     throttle_requests t d (processor s) = Some (processor s')"
  by (auto simp add: throttle_requests_def split: if_splits)

lemma run_call_resume_is_throttle_requests:
  "throttle_begin t (processor s) = Some delay \<Longrightarrow>
   run [Call c t t', Resume c d] s = Some s' \<Longrightarrow>
     throttle_requests t d (processor s) = Some (processor s')"
  by (auto simp add: throttle_requests_def throttle_end_def split: if_splits)

text \<open>
  Claim C3, as amended. When the second call enters the throttle after the first one has
  returned from it, the second request is dispatched at least \<^verbatim>\<open>processing_delay\<close> seconds
  after the first; and the second call does return once the clock has reached that time.
\<close>

theorem throttle_requests_consecutive_spacing:
  "(throttle_requests t1 d1 self = Some self1 \<and> d1 \<le> t2
      \<and> throttle_requests t2 d2 self1 = Some self2
      \<longrightarrow> processing_delay self \<le> d2 - d1 \<and> last_request_time self2 = d2)
   \<and> (throttle_requests t1 d1 self = Some self1 \<and> d1 \<le> t2 \<and> t2 \<le> d2
        \<and> d1 + processing_delay self \<le> d2
      \<longrightarrow> throttle_requests t2 d2 self1 = Some (self1\<lparr>last_request_time := d2\<rparr>))"
proof (intro conjI impI)
  assume a: "throttle_requests t1 d1 self = Some self1 \<and> d1 \<le> t2
      \<and> throttle_requests t2 d2 self1 = Some self2"
  from a have 1: "self1 = self\<lparr>last_request_time := d1\<rparr>"
    using throttle_requests_Some by blast
  from a have 2: "self2 = self1\<lparr>last_request_time := d2\<rparr>"
    and 3: "last_request_time self1 + processing_delay self1 \<le> d2"
    using throttle_requests_Some by blast+
  from 1 3 show "processing_delay self \<le> d2 - d1" by simp
  from 2 show "last_request_time self2 = d2" by simp
next
  assume a: "throttle_requests t1 d1 self = Some self1 \<and> d1 \<le> t2 \<and> t2 \<le> d2
        \<and> d1 + processing_delay self \<le> d2"
  from a have 1: "self1 = self\<lparr>last_request_time := d1\<rparr>"
    using throttle_requests_Some by blast
  with a have "last_request_time self1 + processing_delay self1 \<le> d2" by simp
  with a show "throttle_requests t2 d2 self1 = Some (self1\<lparr>last_request_time := d2\<rparr>)"
    by (intro throttle_requests_returns) simp_all
qed

lemma example_first_call:
  "throttle_requests 100 100 \<lparr>processing_delay = 2, last_request_time = 0\<rparr>
     = Some \<lparr>processing_delay = 2, last_request_time = 100\<rparr>"
  by (simp add: throttle_requests_def throttle_begin_def throttle_end_def Let_def)

lemma example_second_call:
  "throttle_requests 101 102 \<lparr>processing_delay = 2, last_request_time = 100\<rparr>
     = Some \<lparr>processing_delay = 2, last_request_time = 102\<rparr>"
  by (simp add: throttle_requests_def throttle_begin_def throttle_end_def Let_def)

theorem throttle_requests_consecutive_spacing_witness:
  "throttle_requests 100 100 \<lparr>processing_delay = 2, last_request_time = 0\<rparr>
     = Some \<lparr>processing_delay = 2, last_request_time = 100\<rparr>
   \<and> throttle_requests 101 102 \<lparr>processing_delay = 2, last_request_time = 100\<rparr>
     = Some \<lparr>processing_delay = 2, last_request_time = 102\<rparr>
   \<and> processing_delay \<lparr>processing_delay = 2, last_request_time = 0\<rparr> \<le> (102::real) - 100"
  using throttle_requests_consecutive_spacing
    [of 100 100 "\<lparr>processing_delay = 2, last_request_time = 0\<rparr>"
        "\<lparr>processing_delay = 2, last_request_time = 100\<rparr>" 101 102
        "\<lparr>processing_delay = 2, last_request_time = 102\<rparr>"]
    example_first_call example_second_call
  by simp

text \<open>
  Claim C3 as stated fails for concurrent callers. The last request went out at time 100.
  Callers 1 and 2 both enter the throttle at time 101, before either has woken:
  each reads \<^verbatim>\<open>last_request_time = 100\<close> and sleeps one second; both wake at time 102 and
  both requests are dispatched at time 102, zero seconds apart.
\<close>

theorem throttle_concurrent_counterexample:
  "dispatched_at (run [Call 1 101 101, Call 2 101 101, Resume 1 102, Resume 2 102] example_loop) 1
     = Some 102
   \<and> dispatched_at (run [Call 1 101 101, Call 2 101 101, Resume 1 102, Resume 2 102] example_loop) 2
     = Some 102
   \<and> \<not> processing_delay (processor example_loop) \<le> (102::real) - 102"
  by (simp add: dispatched_at_def example_loop_def throttle_begin_def throttle_end_def Let_def)

section \<open>The report of a sweep\<close>









section \<open>Reentrancy of the sweep\<close>
























end
